theory Spec2Isabelle
  imports Complex_Main
begin

section \<open>Python strings and the built-ins the utilities call\<close>

text \<open>
  A Python \<open>str\<close> is a sequence of code points. The model is \<^typ>\<open>string\<close>, read as the
  code points 0 to 255 (Latin-1): \<^term>\<open>length\<close> counts code points, as \<open>len\<close> does, and a
  \<^typ>\<open>char\<close> is the code point itself, not a byte of an encoding. Code points above 255 are
  outside the model. The built-ins below are written out on this range from what CPython does.
\<close>

datatype error =
    InvalidNoteName string  \<comment> \<open>\<open>ValueError(f"Invalid note name: {note_name}")\<close>\<close>
  | InvalidOctave string  \<comment> \<open>\<open>ValueError(f"Invalid octave in note name: {note_name}")\<close>\<close>
  | InvalidNote string  \<comment> \<open>\<open>ValueError(f"Invalid note: {note}")\<close>\<close>
  | InvalidLiteral string  \<comment> \<open>the \<open>ValueError\<close> of \<open>int(s)\<close>: invalid literal for int() with base 10\<close>
  | NegativeDimensions  \<comment> \<open>\<open>np.zeros(n)\<close> or \<open>torch.zeros(n)\<close> for \<open>n < 0\<close>\<close>
  | FloatToInt  \<comment> \<open>\<open>int(x)\<close> for a float that is NaN (\<open>ValueError\<close>) or infinite (\<open>OverflowError\<close>)\<close>
  | IntToFloat  \<comment> \<open>\<open>OverflowError\<close>: int too large to convert to float\<close>

definition py_isspace :: "char \<Rightarrow> bool" where
  \<comment> \<open>the characters \<open>str.strip()\<close> and \<open>str.split()\<close> treat as whitespace\<close>
  "py_isspace c \<longleftrightarrow> c \<in> set [CHR 0x09, CHR 0x0A, CHR 0x0B, CHR 0x0C, CHR 0x0D,
     CHR 0x1C, CHR 0x1D, CHR 0x1E, CHR 0x1F, CHR 0x20, CHR 0x85, CHR 0xA0]"

definition py_strip :: "string \<Rightarrow> string" where
  "py_strip s = rev (dropWhile py_isspace (rev (dropWhile py_isspace s)))"

function py_split :: "string \<Rightarrow> string list" where
  \<comment> \<open>\<open>s.split()\<close> without arguments: the maximal runs of non-whitespace characters\<close>
  "py_split s =
     (case dropWhile py_isspace s of
        [] \<Rightarrow> []
      | c # cs \<Rightarrow> takeWhile (\<lambda>x. \<not> py_isspace x) (c # cs)
                 # py_split (dropWhile (\<lambda>x. \<not> py_isspace x) cs))"
  by pat_completeness auto
termination
proof (relation "measure length")
  show "wf (measure length)" by simp
next
  fix s :: string and c cs
  assume "dropWhile py_isspace s = c # cs"
  then have "length (c # cs) \<le> length s"
    by (metis length_dropWhile_le)
  moreover have "length (dropWhile (\<lambda>x. \<not> py_isspace x) cs) \<le> length cs"
    by (rule length_dropWhile_le)
  ultimately show "(dropWhile (\<lambda>x. \<not> py_isspace x) cs, s) \<in> measure length"
    by simp
qed

declare py_split.simps [simp del]

definition lower_char :: "char \<Rightarrow> char" where
  \<comment> \<open>\<open>str.lower()\<close> on one code point below 256: A-Z and the accented capitals move up by 32\<close>
  "lower_char c =
     (let n = (of_char c :: nat)
      in if (65 \<le> n \<and> n \<le> 90) \<or> (192 \<le> n \<and> n \<le> 222 \<and> n \<noteq> 215)
         then char_of (n + 32) else c)"

definition py_lower :: "string \<Rightarrow> string" where
  "py_lower s = map lower_char s"

definition isdigit_char :: "char \<Rightarrow> bool" where
  \<comment> \<open>the code points below 256 with the Unicode digit property: 0-9 and superscript 2, 3, 1\<close>
  "isdigit_char c \<longleftrightarrow>
     (let n = (of_char c :: nat) in (48 \<le> n \<and> n \<le> 57) \<or> n = 178 \<or> n = 179 \<or> n = 185)"

definition py_isdigit :: "string \<Rightarrow> bool" where
  \<comment> \<open>\<open>s.isdigit()\<close>: at least one character, and all of them digits\<close>
  "py_isdigit s \<longleftrightarrow> s \<noteq> [] \<and> list_all isdigit_char s"

definition digit_val :: "char \<Rightarrow> nat option" where
  \<comment> \<open>the decimal digits \<open>int\<close> accepts below 256\<close>
  "digit_val c =
     (let n = (of_char c :: nat) in if 48 \<le> n \<and> n \<le> 57 then Some (n - 48) else None)"

fun int_digits :: "nat \<Rightarrow> string \<Rightarrow> nat option" where
  \<comment> \<open>the digits of a base-10 literal; one underscore may stand between two digits\<close>
  "int_digits acc [] = None"
| "int_digits acc [c] = map_option (\<lambda>v. acc * 10 + v) (digit_val c)"
| "int_digits acc (c # d # cs) =
     (case digit_val c of
        None \<Rightarrow> None
      | Some v \<Rightarrow> int_digits (acc * 10 + v) (if d = CHR ''_'' then cs else d # cs))"

definition int_isspace :: "char \<Rightarrow> bool" where
  \<comment> \<open>the whitespace \<open>int\<close> skips around a literal (not the separators 0x1C to 0x1F)\<close>
  "int_isspace c \<longleftrightarrow> c \<in> set [CHR 0x09, CHR 0x0A, CHR 0x0B, CHR 0x0C, CHR 0x0D,
     CHR 0x20, CHR 0x85, CHR 0xA0]"

definition py_int :: "string \<Rightarrow> error + int" where
  \<comment> \<open>\<open>int(s)\<close> for a string: surrounding whitespace, an optional sign, then the digits.
      The limit on the length of a literal (\<open>sys.set_int_max_str_digits\<close>) is taken as off.\<close>
  "py_int s =
     (case rev (dropWhile int_isspace (rev (dropWhile int_isspace s))) of
        [] \<Rightarrow> Inl (InvalidLiteral s)
      | c # cs \<Rightarrow>
          if c = CHR ''-'' then
            (case int_digits 0 cs of None \<Rightarrow> Inl (InvalidLiteral s) | Some n \<Rightarrow> Inr (- int n))
          else if c = CHR ''+'' then
            (case int_digits 0 cs of None \<Rightarrow> Inl (InvalidLiteral s) | Some n \<Rightarrow> Inr (int n))
          else
            (case int_digits 0 (c # cs) of None \<Rightarrow> Inl (InvalidLiteral s) | Some n \<Rightarrow> Inr (int n)))"


section \<open>Note names: \<open>note_to_midi\<close>\<close>

definition note_map :: "string \<rightharpoonup> int" where
  "note_map = map_of
     [(''C'', 0), (''C#'', 1), (''Db'', 1), (''D'', 2), (''D#'', 3), (''Eb'', 3),
      (''E'', 4), (''F'', 5), (''F#'', 6), (''Gb'', 6), (''G'', 7), (''G#'', 8),
      (''Ab'', 8), (''A'', 9), (''A#'', 10), (''Bb'', 10), (''B'', 11)]"

definition note_to_midi :: "string \<Rightarrow> error + int" where
  "note_to_midi note_name =
     (if length note_name < 2 then Inl (InvalidNoteName note_name)
      else case py_int [last note_name] of
        Inl _ \<Rightarrow> Inl (InvalidOctave note_name)
      | Inr octave \<Rightarrow>
          (let note = butlast note_name
           in case note_map note of
                None \<Rightarrow> Inl (InvalidNote note)
              | Some v \<Rightarrow> Inr (v + (octave + 1) * 12)))"


section \<open>Note strings: \<open>parse_notes\<close>\<close>

text \<open>
  The parsed notes are the dictionaries \<open>{'type': 'rest'}\<close>, \<open>{'type': 'midi', 'value': n}\<close>
  and \<open>{'type': 'name', 'value': s}\<close>.
\<close>

datatype parsed_note = Rest | Midi int | Name string

fun parse_loop :: "string list \<Rightarrow> parsed_note list \<Rightarrow> error + parsed_note list" where
  \<comment> \<open>the \<open>for note in notes\<close> loop; \<open>parsed\<close> is the list appended to\<close>
  "parse_loop [] parsed = Inr parsed"
| "parse_loop (note # notes) parsed =
     (if py_lower note = ''rest'' then parse_loop notes (parsed @ [Rest])
      else if py_isdigit note then
        (case py_int note of
           Inl e \<Rightarrow> Inl e
         | Inr v \<Rightarrow> parse_loop notes (parsed @ [Midi v]))
      else parse_loop notes (parsed @ [Name note]))"

definition parse_notes :: "string \<Rightarrow> error + parsed_note list" where
  "parse_notes notes_str = parse_loop (py_split (py_strip notes_str)) []"

text \<open>
  The classification as the specification words it, for comparison with the loop: a
  case-insensitive match with "rest", else a word of decimal digits read as a number, else
  the raw word.
\<close>

definition spec_is_rest :: "string \<Rightarrow> bool" where
  "spec_is_rest w \<longleftrightarrow>
     (\<exists>a b c d. w = [a, b, c, d] \<and> a \<in> set ''rR'' \<and> b \<in> set ''eE'' \<and> c \<in> set ''sS''
        \<and> d \<in> set ''tT'')"

definition spec_decimal :: "string \<Rightarrow> bool" where
  "spec_decimal w \<longleftrightarrow> w \<noteq> [] \<and> set w \<subseteq> set ''0123456789''"

definition decimal_value :: "string \<Rightarrow> int" where
  \<comment> \<open>the number a string of the digits 0 to 9 denotes in base 10\<close>
  "decimal_value w = int (foldl (\<lambda>acc c. acc * 10 + (of_char c - 48)) 0 w)"

definition spec_classify :: "string \<Rightarrow> parsed_note" where
  "spec_classify w =
     (if spec_is_rest w then Rest
      else if spec_decimal w then Midi (decimal_value w)
      else Name w)"


section \<open>Audio buffers: \<open>generate_silence\<close>, \<open>normalize_audio\<close>, \<open>synthesize\<close>\<close>

text \<open>
  A sample is a float (IEEE binary64). The model keeps the three special values apart from
  the finite ones and follows the IEEE rules for them. A finite result that is too large for
  a double becomes an infinity. The elementwise numpy operations of \<open>normalize_audio\<close> are
  otherwise taken without rounding (and without signed zeros); the product of Python floats
  from which \<open>generate_silence\<close> and \<open>synthesize\<close> take a sample count is rounded to the
  nearest double, as the count depends on it. Running out of memory is not modelled. A buffer
  is a one-dimensional array, modelled as a list.
\<close>

datatype npfloat = Fin real | PInf | NInf | NaN

definition overflow :: "real \<Rightarrow> npfloat" where
  \<comment> \<open>a result of magnitude \<open>2^1024 - 2^970\<close> or more does not fit a double\<close>
  "overflow r =
     (if 2 ^ 1024 - 2 ^ 970 \<le> r then PInf
      else if r \<le> - (2 ^ 1024 - 2 ^ 970) then NInf
      else Fin r)"

fun f_neg :: "npfloat \<Rightarrow> npfloat" where
  "f_neg (Fin a) = Fin (- a)"
| "f_neg PInf = NInf"
| "f_neg NInf = PInf"
| "f_neg NaN = NaN"

fun f_add :: "npfloat \<Rightarrow> npfloat \<Rightarrow> npfloat" where
  "f_add NaN _ = NaN"
| "f_add _ NaN = NaN"
| "f_add (Fin a) (Fin b) = overflow (a + b)"
| "f_add PInf NInf = NaN"
| "f_add NInf PInf = NaN"
| "f_add PInf _ = PInf"
| "f_add _ PInf = PInf"
| "f_add NInf _ = NInf"
| "f_add _ NInf = NInf"

definition f_sub :: "npfloat \<Rightarrow> npfloat \<Rightarrow> npfloat" where
  "f_sub x y = f_add x (f_neg y)"

fun f_mul :: "npfloat \<Rightarrow> npfloat \<Rightarrow> npfloat" where
  "f_mul NaN _ = NaN"
| "f_mul _ NaN = NaN"
| "f_mul (Fin a) (Fin b) = overflow (a * b)"
| "f_mul (Fin a) PInf = (if a = 0 then NaN else if 0 < a then PInf else NInf)"
| "f_mul (Fin a) NInf = (if a = 0 then NaN else if 0 < a then NInf else PInf)"
| "f_mul PInf (Fin b) = (if b = 0 then NaN else if 0 < b then PInf else NInf)"
| "f_mul NInf (Fin b) = (if b = 0 then NaN else if 0 < b then NInf else PInf)"
| "f_mul PInf PInf = PInf"
| "f_mul NInf NInf = PInf"
| "f_mul PInf NInf = NInf"
| "f_mul NInf PInf = NInf"

fun f_div :: "npfloat \<Rightarrow> npfloat \<Rightarrow> npfloat" where
  \<comment> \<open>numpy division: a zero divisor gives NaN or an infinity (with a warning), not an error\<close>
  "f_div NaN _ = NaN"
| "f_div _ NaN = NaN"
| "f_div (Fin a) (Fin b) =
     (if b \<noteq> 0 then overflow (a / b)
      else if a = 0 then NaN else if 0 < a then PInf else NInf)"
| "f_div (Fin a) _ = Fin 0"
| "f_div PInf (Fin b) = (if 0 \<le> b then PInf else NInf)"
| "f_div NInf (Fin b) = (if 0 \<le> b then NInf else PInf)"
| "f_div _ _ = NaN"

fun f_gt :: "npfloat \<Rightarrow> npfloat \<Rightarrow> bool" where
  \<comment> \<open>\<open>x > y\<close>; every comparison with NaN is false\<close>
  "f_gt NaN _ = False"
| "f_gt _ NaN = False"
| "f_gt (Fin a) (Fin b) = (b < a)"
| "f_gt PInf PInf = False"
| "f_gt PInf _ = True"
| "f_gt _ PInf = False"
| "f_gt NInf _ = False"
| "f_gt _ NInf = True"

fun np_sqrt :: "npfloat \<Rightarrow> npfloat" where
  "np_sqrt (Fin a) = (if a < 0 then NaN else Fin (sqrt a))"
| "np_sqrt PInf = PInf"
| "np_sqrt NInf = NaN"
| "np_sqrt NaN = NaN"

fun np_log10 :: "npfloat \<Rightarrow> npfloat" where
  "np_log10 (Fin a) = (if a < 0 then NaN else if a = 0 then NInf else Fin (log 10 a))"
| "np_log10 PInf = PInf"
| "np_log10 NInf = NaN"
| "np_log10 NaN = NaN"

fun pow10 :: "npfloat \<Rightarrow> npfloat" where
  \<comment> \<open>\<open>10 ** x\<close>: an infinity once the power is too large for a double\<close>
  "pow10 (Fin a) = overflow (10 powr a)"
| "pow10 PInf = PInf"
| "pow10 NInf = Fin 0"
| "pow10 NaN = NaN"

definition np_mean :: "npfloat list \<Rightarrow> npfloat" where
  \<comment> \<open>the sum over the count; the mean of an empty array is 0.0 / 0, that is NaN\<close>
  "np_mean xs = f_div (foldl f_add (Fin 0) xs) (Fin (real (length xs)))"

fun np_clip :: "real \<Rightarrow> real \<Rightarrow> npfloat \<Rightarrow> npfloat" where
  \<comment> \<open>\<open>np.clip\<close> on one element: \<open>minimum(maximum(x, lo), hi)\<close>, which passes NaN on\<close>
  "np_clip lo hi (Fin a) = Fin (min hi (max lo a))"
| "np_clip lo hi PInf = Fin hi"
| "np_clip lo hi NInf = Fin lo"
| "np_clip lo hi NaN = NaN"

definition normalize_audio :: "npfloat list \<Rightarrow> npfloat \<Rightarrow> npfloat list" where
  "normalize_audio audio target_level =
     (let rms = np_sqrt (np_mean (map (\<lambda>x. f_mul x x) audio));
          audio' =
            (if f_gt rms (Fin 0) then
               (let current_db = f_mul (Fin 20) (np_log10 rms);
                    gain_db = f_sub target_level current_db;
                    gain_linear = pow10 (f_div gain_db (Fin 20))
                in map (\<lambda>x. f_mul x gain_linear) audio)
             else audio)
      in map (np_clip (- 1) 1) audio')"

text \<open>
  Python's own float arithmetic, as \<open>duration * sr\<close> uses it: the integer operand is
  converted to a float, and the product is the exact product rounded to the nearest double,
  ties to the even significand.
\<close>

definition pow2 :: "int \<Rightarrow> real" where
  "pow2 k = (if 0 \<le> k then 2 ^ nat k else 1 / 2 ^ nat (- k))"

definition round_half_even :: "real \<Rightarrow> int" where
  "round_half_even y =
     (let f = \<lfloor>y\<rfloor>
      in if y - of_int f < 1 / 2 then f
         else if 1 / 2 < y - of_int f then f + 1
         else if even f then f else f + 1)"

definition fl_round :: "real \<Rightarrow> npfloat" where
  \<comment> \<open>round to nearest double: 53 significant bits from exponent -1022 on (subnormal
      below); a rounded magnitude of \<open>2^1024\<close> or more is an infinity\<close>
  "fl_round x =
     (if x = 0 then Fin 0
      else
        (let u = pow2 (max \<lfloor>log 2 \<bar>x\<bar>\<rfloor> (- 1022) - 52);
             y = of_int (round_half_even (x / u)) * u
         in if 2 ^ 1024 \<le> \<bar>y\<bar> then (if 0 < x then PInf else NInf) else Fin y))"

definition float_of_int :: "int \<Rightarrow> error + npfloat" where
  \<comment> \<open>the conversion of an \<open>int\<close> operand; too large an integer raises \<open>OverflowError\<close>\<close>
  "float_of_int n =
     (case fl_round (real_of_int n) of
        Fin a \<Rightarrow> Inr (Fin a)
      | _ \<Rightarrow> Inl IntToFloat)"

fun float_mul :: "npfloat \<Rightarrow> npfloat \<Rightarrow> npfloat" where
  \<comment> \<open>\<open>x * y\<close> on Python floats; an overflow gives an infinity, not an error\<close>
  "float_mul (Fin a) (Fin b) = fl_round (a * b)"
| "float_mul x y = f_mul x y"

definition int_of_float :: "npfloat \<Rightarrow> error + int" where
  \<comment> \<open>\<open>int(x)\<close> for a float: truncation towards zero; NaN and the infinities raise\<close>
  "int_of_float x =
     (case x of
        Fin a \<Rightarrow> Inr (if 0 \<le> a then \<lfloor>a\<rfloor> else \<lceil>a\<rceil>)
      | _ \<Rightarrow> Inl FloatToInt)"

definition zeros :: "int \<Rightarrow> error + npfloat list" where
  \<comment> \<open>\<open>np.zeros(n)\<close> and \<open>torch.zeros(n)\<close>: a negative size is refused\<close>
  "zeros n = (if n < 0 then Inl NegativeDimensions else Inr (replicate (nat n) (Fin 0)))"

definition float_times_int :: "npfloat \<Rightarrow> int \<Rightarrow> error + npfloat" where
  \<comment> \<open>the product of a float and an \<open>int\<close>, in either order\<close>
  "float_times_int x n =
     (case float_of_int n of
        Inl e \<Rightarrow> Inl e
      | Inr s \<Rightarrow> Inr (float_mul x s))"

definition generate_silence :: "npfloat \<Rightarrow> int \<Rightarrow> error + npfloat list" where
  "generate_silence duration sr =
     (case float_times_int duration sr of
        Inl e \<Rightarrow> Inl e
      | Inr p \<Rightarrow>
          (case int_of_float p of
             Inl e \<Rightarrow> Inl e
           | Inr n \<Rightarrow> zeros n))"

text \<open>
  \<open>TCSinger2Model.synthesize\<close>. The object's fields are read only by the \<open>print\<close> calls;
  what is written to standard output is not part of the model.
\<close>

record TCSinger2Model =
  model_path :: "string option"
  device :: string

definition synthesize ::
  "TCSinger2Model \<Rightarrow> npfloat list \<Rightarrow> string \<Rightarrow> string \<Rightarrow> npfloat \<Rightarrow> error + npfloat list" where
  "synthesize self audio_prompt text notes cfg_scale =
     (let sample_rate = (48000 :: int);
          duration = Fin 3
      in case float_times_int duration sample_rate of
           Inl e \<Rightarrow> Inl e
         | Inr p \<Rightarrow>
             (case int_of_float p of
                Inl e \<Rightarrow> Inl e
              | Inr n \<Rightarrow> zeros n))"

text \<open>Predicates on samples used to state the properties below.\<close>

fun is_finite :: "npfloat \<Rightarrow> bool" where
  "is_finite (Fin a) = True"
| "is_finite _ = False"


fun val :: "npfloat \<Rightarrow> real" where
  "val (Fin a) = a"
| "val _ = 0"


section \<open>Properties of \<open>note_to_midi\<close>\<close>

lemma char_of_digits:
  "char_of (48::nat) = CHR ''0''" "char_of (49::nat) = CHR ''1''" "char_of (50::nat) = CHR ''2''"
  "char_of (51::nat) = CHR ''3''" "char_of (52::nat) = CHR ''4''" "char_of (53::nat) = CHR ''5''"
  "char_of (54::nat) = CHR ''6''" "char_of (55::nat) = CHR ''7''" "char_of (56::nat) = CHR ''8''"
  "char_of (57::nat) = CHR ''9''"
  by code_simp+

lemma char_cases_digit:
  assumes "48 \<le> (of_char c :: nat)" "(of_char c :: nat) \<le> 57"
  shows "c \<in> set ''0123456789''"
proof -
  have "(of_char c :: nat) \<in> {48,49,50,51,52,53,54,55,56,57}" using assms by simp arith
  then have "char_of (of_char c :: nat) \<in> char_of ` {48,49,50,51,52,53,54,55,56,57::nat}"
    by (rule imageI)
  then show ?thesis by (simp add: char_of_digits)
qed

lemma digit_val_Some_iff:
  "digit_val c = Some n \<longleftrightarrow> n < 10 \<and> c = ''0123456789'' ! n"
proof
  assume h: "digit_val c = Some n"
  then have r: "48 \<le> (of_char c :: nat)" "(of_char c :: nat) \<le> 57" and n: "n = of_char c - 48"
    by (auto simp: digit_val_def Let_def split: if_splits)
  from char_cases_digit[OF r] n show "n < 10 \<and> c = ''0123456789'' ! n"
    by auto
next
  assume "n < 10 \<and> c = ''0123456789'' ! n"
  then have "n \<in> {0,1,2,3,4,5,6,7,8,9}" and c: "c = ''0123456789'' ! n" by auto
  then show "digit_val c = Some n"
    by (auto simp: digit_val_def)
qed

lemma digit_val_None_iff: "digit_val c = None \<longleftrightarrow> c \<notin> set ''0123456789''"
proof
  assume "digit_val c = None"
  then show "c \<notin> set ''0123456789''" by (auto simp: digit_val_def)
next
  assume "c \<notin> set ''0123456789''"
  then show "digit_val c = None"
    using char_cases_digit[of c] by (auto simp: digit_val_def Let_def)
qed

lemma digit_not_space: "digit_val c = Some v \<Longrightarrow> \<not> int_isspace c"
  by (auto simp: digit_val_def int_isspace_def Let_def split: if_splits)

lemma py_int_single:
  "py_int [c] = (case digit_val c of None \<Rightarrow> Inl (InvalidLiteral [c]) | Some v \<Rightarrow> Inr (int v))"
proof (cases "digit_val c")
  case None
  then show ?thesis
    by (auto simp: py_int_def split: list.splits)
next
  case (Some v)
  then have "\<not> int_isspace c" "c \<noteq> CHR ''-''" "c \<noteq> CHR ''+''"
    by (auto simp: digit_not_space digit_val_def)
  with Some show ?thesis by (simp add: py_int_def)
qed

lemma note_map_dom: "dom note_map = {''C'', ''C#'', ''Db'', ''D'', ''D#'', ''Eb'',
      ''E'', ''F'', ''F#'', ''Gb'', ''G'', ''G#'', ''Ab'', ''A'', ''A#'', ''Bb'', ''B''}"
  unfolding note_map_def by (simp add: dom_map_of_conv_image_fst) 

lemma note_map_range: "note_map k = Some v \<Longrightarrow> 0 \<le> v \<and> v \<le> 11"
  unfolding note_map_def by (auto split: if_splits)

lemma note_map_nonempty: "note_map k = Some v \<Longrightarrow> k \<noteq> []"
  unfolding note_map_def by (auto split: if_splits)

lemma note_map_no_digit: "note_map k = Some v \<Longrightarrow> last k \<notin> set ''0123456789''"
  unfolding note_map_def by (auto split: if_splits)

lemma note_to_midi_unfold:
  "note_to_midi s =
     (if length s < 2 then Inl (InvalidNoteName s)
      else case digit_val (last s) of
        None \<Rightarrow> Inl (InvalidOctave s)
      | Some oc \<Rightarrow> (case note_map (butlast s) of
            None \<Rightarrow> Inl (InvalidNote (butlast s))
          | Some v \<Rightarrow> Inr (v + (int oc + 1) * 12)))"
  by (simp add: note_to_midi_def py_int_single split: option.splits)

text \<open>
  C1. For a spelling of the table followed by one decimal digit, \<open>note_to_midi\<close> returns
  \<open>table[spelling] + (octave + 1) * 12\<close>; "C4" gives 60 and "A4" gives 69.
\<close>

theorem note_to_midi_formula:
  "(note_map spelling = Some v \<and> n < 10 \<longrightarrow>
      note_to_midi (spelling @ [''0123456789'' ! n]) = Inr (v + (int n + 1) * 12))
   \<and> note_to_midi ''C4'' = Inr 60 \<and> note_to_midi ''A4'' = Inr 69"
proof (intro conjI impI)
  assume h: "note_map spelling = Some v \<and> n < 10"
  then have "spelling \<noteq> []" by (auto dest: note_map_nonempty)
  then have len: "\<not> length (spelling @ [''0123456789'' ! n]) < 2"
    by (cases spelling) auto
  from h have d: "digit_val (''0123456789'' ! n) = Some n"
    by (simp add: digit_val_Some_iff)
  show "note_to_midi (spelling @ [''0123456789'' ! n]) = Inr (v + (int n + 1) * 12)"
    unfolding note_to_midi_unfold using len d h by simp
next
  show "note_to_midi ''C4'' = Inr 60"
    by (simp add: note_to_midi_unfold digit_val_def note_map_def)
  show "note_to_midi ''A4'' = Inr 69"
    by (simp add: note_to_midi_unfold digit_val_def note_map_def)
qed

theorem note_to_midi_formula_witness:
  "note_map ''C#'' = Some 1 \<and> (4::nat) < 10 \<and> note_to_midi ''C#4'' = Inr 61"
  using note_to_midi_formula [of "''C#''" 1 4] by (simp add: note_map_def)

lemma py_int_single_fails: "isl (py_int [c]) \<longleftrightarrow> c \<notin> set ''0123456789''"
  by (simp only: py_int_single digit_val_None_iff[symmetric] split: option.split) auto

text \<open>
  C3. \<open>note_to_midi\<close> fails in three cases, tried in this order: a name shorter than two
  characters (InvalidNoteName), a last character that \<open>int\<close> does not accept (InvalidOctave),
  a spelling that is not in the table (InvalidNote). On every other input it returns a number.
  "H9" fails with InvalidNote and "C" for being too short.
\<close>

theorem note_to_midi_failures:
  "(length s < 2 \<longrightarrow> note_to_midi s = Inl (InvalidNoteName s))
   \<and> (2 \<le> length s \<and> isl (py_int [last s]) \<longrightarrow> note_to_midi s = Inl (InvalidOctave s))
   \<and> (2 \<le> length s \<and> \<not> isl (py_int [last s]) \<and> butlast s \<notin> dom note_map \<longrightarrow>
        note_to_midi s = Inl (InvalidNote (butlast s)))
   \<and> (2 \<le> length s \<and> \<not> isl (py_int [last s]) \<and> butlast s \<in> dom note_map \<longrightarrow>
        (\<exists>m. note_to_midi s = Inr m))
   \<and> note_to_midi ''H9'' = Inl (InvalidNote ''H'')
   \<and> note_to_midi ''C'' = Inl (InvalidNoteName ''C'')"
proof (intro conjI impI)
  show "note_to_midi ''H9'' = Inl (InvalidNote ''H'')"
    by (simp add: note_to_midi_unfold digit_val_def note_map_def)
  show "note_to_midi ''C'' = Inl (InvalidNoteName ''C'')"
    by (simp add: note_to_midi_unfold)
qed (auto simp: note_to_midi_def split: sum.splits option.splits)

theorem note_to_midi_failures_witness:
  "length ''C'' < 2 \<and> note_to_midi ''C'' = Inl (InvalidNoteName ''C'')
   \<and> 2 \<le> length ''Cx'' \<and> isl (py_int [last ''Cx'']) \<and> note_to_midi ''Cx'' = Inl (InvalidOctave ''Cx'')
   \<and> 2 \<le> length ''H9'' \<and> \<not> isl (py_int [last ''H9'']) \<and> butlast ''H9'' \<notin> dom note_map
       \<and> note_to_midi ''H9'' = Inl (InvalidNote ''H'')
   \<and> 2 \<le> length ''Bb3'' \<and> \<not> isl (py_int [last ''Bb3'']) \<and> butlast ''Bb3'' \<in> dom note_map
       \<and> (\<exists>m. note_to_midi ''Bb3'' = Inr m)"
  using note_to_midi_failures [of "''C''"] note_to_midi_failures [of "''Cx''"]
    note_to_midi_failures [of "''H9''"] note_to_midi_failures [of "''Bb3''"]
  by (simp add: py_int_single_fails note_map_dom)

text \<open>
  C8. For every octave digit the enharmonic spellings C#/Db, D#/Eb, F#/Gb, G#/Ab and A#/Bb
  convert to the same number; "C#4" and "Db4" both give 61; every offset of the table lies
  between 0 and 11.
\<close>

theorem enharmonic_equal:
  "(n < 10 \<longrightarrow>
      (let d = ''0123456789'' ! n in
         note_to_midi (''C#'' @ [d]) = Inr (1 + (int n + 1) * 12)
       \<and> note_to_midi (''C#'' @ [d]) = note_to_midi (''Db'' @ [d])
       \<and> note_to_midi (''D#'' @ [d]) = note_to_midi (''Eb'' @ [d])
       \<and> note_to_midi (''F#'' @ [d]) = note_to_midi (''Gb'' @ [d])
       \<and> note_to_midi (''G#'' @ [d]) = note_to_midi (''Ab'' @ [d])
       \<and> note_to_midi (''A#'' @ [d]) = note_to_midi (''Bb'' @ [d])
       \<and> \<not> isl (note_to_midi (''D#'' @ [d])) \<and> \<not> isl (note_to_midi (''F#'' @ [d]))
       \<and> \<not> isl (note_to_midi (''G#'' @ [d])) \<and> \<not> isl (note_to_midi (''A#'' @ [d]))))
   \<and> note_to_midi ''C#4'' = Inr 61 \<and> note_to_midi ''Db4'' = Inr 61
   \<and> (note_map k = Some v \<longrightarrow> 0 \<le> v \<and> v \<le> 11)"
proof (intro conjI impI)
  assume n: "n < 10"
  then have d: "digit_val (''0123456789'' ! n) = Some n"
    by (simp add: digit_val_Some_iff)
  show "let d = ''0123456789'' ! n in
         note_to_midi (''C#'' @ [d]) = Inr (1 + (int n + 1) * 12)
       \<and> note_to_midi (''C#'' @ [d]) = note_to_midi (''Db'' @ [d])
       \<and> note_to_midi (''D#'' @ [d]) = note_to_midi (''Eb'' @ [d])
       \<and> note_to_midi (''F#'' @ [d]) = note_to_midi (''Gb'' @ [d])
       \<and> note_to_midi (''G#'' @ [d]) = note_to_midi (''Ab'' @ [d])
       \<and> note_to_midi (''A#'' @ [d]) = note_to_midi (''Bb'' @ [d])
       \<and> \<not> isl (note_to_midi (''D#'' @ [d])) \<and> \<not> isl (note_to_midi (''F#'' @ [d]))
       \<and> \<not> isl (note_to_midi (''G#'' @ [d])) \<and> \<not> isl (note_to_midi (''A#'' @ [d]))"
    unfolding Let_def note_to_midi_unfold using d by (simp add: note_map_def)
next
  show "note_to_midi ''C#4'' = Inr 61"
    by (simp add: note_to_midi_unfold digit_val_def note_map_def)
  show "note_to_midi ''Db4'' = Inr 61"
    by (simp add: note_to_midi_unfold digit_val_def note_map_def)
next
  assume "note_map k = Some v"
  then show "0 \<le> v" "v \<le> 11" by (auto dest: note_map_range)
qed

theorem enharmonic_equal_witness:
  "(5::nat) < 10 \<and> note_to_midi ''G#5'' = note_to_midi ''Ab5'' \<and> note_to_midi ''A#5'' = Inr 82
   \<and> note_map ''Bb'' = Some 10 \<and> (0::int) \<le> 10 \<and> (10::int) \<le> 11"
proof -
  have m: "note_map ''Bb'' = Some 10" by (simp add: note_map_def)
  have a: "note_to_midi ''A#5'' = Inr 82"
    by (simp add: note_to_midi_unfold digit_val_def note_map_def)
  show ?thesis
    using enharmonic_equal [of 5 "''Bb''" 10] m a by (simp add: Let_def)
qed

text \<open>
  C10. Whenever \<open>note_to_midi\<close> succeeds, the octave is the value of the last character alone
  and the result lies between 12 and 131. A name that ends in two digits, such as "C10",
  fails: the first of them is taken into the spelling, which is then not in the table.
\<close>

theorem octave_single_digit:
  "(note_to_midi s = Inr m \<longrightarrow>
      12 \<le> m \<and> m \<le> 131
      \<and> (\<exists>v oc. note_map (butlast s) = Some v \<and> digit_val (last s) = Some oc
            \<and> m = v + (int oc + 1) * 12))
   \<and> (d1 \<in> set ''0123456789'' \<and> d2 \<in> set ''0123456789'' \<longrightarrow>
        note_to_midi (p @ [d1, d2]) = Inl (InvalidNote (p @ [d1])))
   \<and> note_to_midi ''C10'' = Inl (InvalidNote ''C1'')"
proof (intro conjI impI)
  assume h: "note_to_midi s = Inr m"
  then obtain v oc where v: "note_map (butlast s) = Some v" and oc: "digit_val (last s) = Some oc"
    and m: "m = v + (int oc + 1) * 12"
    by (auto simp: note_to_midi_unfold split: if_splits option.splits)
  from v have "0 \<le> v" "v \<le> 11" by (auto dest: note_map_range)
  moreover from oc have "oc < 10" by (simp add: digit_val_Some_iff)
  ultimately show "12 \<le> m" "m \<le> 131" using m by auto
  from v oc m show "\<exists>v oc. note_map (butlast s) = Some v \<and> digit_val (last s) = Some oc
            \<and> m = v + (int oc + 1) * 12" by blast
next
  assume h: "d1 \<in> set ''0123456789'' \<and> d2 \<in> set ''0123456789''"
  then obtain oc where oc: "digit_val d2 = Some oc"
    using digit_val_None_iff[of d2] by (cases "digit_val d2") auto
  have "note_map (p @ [d1]) = None"
  proof (cases "note_map (p @ [d1])")
    case (Some v)
    from note_map_no_digit[OF this] h show ?thesis by simp
  qed simp
  then show "note_to_midi (p @ [d1, d2]) = Inl (InvalidNote (p @ [d1]))"
    using oc by (simp add: note_to_midi_unfold butlast_append)
next
  show "note_to_midi ''C10'' = Inl (InvalidNote ''C1'')"
    by (simp add: note_to_midi_unfold digit_val_def note_map_def)
qed

theorem octave_single_digit_witness:
  "note_to_midi ''B9'' = Inr 131 \<and> (12::int) \<le> 131 \<and> (131::int) \<le> 131
   \<and> CHR ''1'' \<in> set ''0123456789'' \<and> CHR ''2'' \<in> set ''0123456789''
   \<and> note_to_midi ''A12'' = Inl (InvalidNote ''A1'')"
proof -
  have a: "note_to_midi ''B9'' = Inr 131"
    by (simp add: note_to_midi_unfold digit_val_def note_map_def)
  show ?thesis
    using octave_single_digit [of "''B9''" 131 "CHR ''1''" "CHR ''2''" "''A''"] a by simp
qed


section \<open>Properties of \<open>parse_notes\<close>\<close>

lemma char_of_of_char_nat: "(of_char c :: nat) = n \<Longrightarrow> c = char_of n"
  by auto

lemma lower_char_iff:
  assumes "97 \<le> (of_char t :: nat)" "(of_char t :: nat) \<le> 122"
  shows "lower_char c = t \<longleftrightarrow> c = t \<or> (of_char c :: nat) + 32 = of_char t"
proof
  assume h: "lower_char c = t"
  show "c = t \<or> (of_char c :: nat) + 32 = of_char t"
  proof (cases "(65 \<le> (of_char c :: nat) \<and> (of_char c :: nat) \<le> 90)
      \<or> (192 \<le> (of_char c :: nat) \<and> (of_char c :: nat) \<le> 222 \<and> (of_char c :: nat) \<noteq> 215)")
    case True
    with h have "char_of ((of_char c :: nat) + 32) = t" by (simp add: lower_char_def Let_def)
    then have "(of_char (char_of ((of_char c :: nat) + 32)) :: nat) = of_char t" by simp
    then have "((of_char c :: nat) + 32) mod 256 = of_char t" by (simp only: of_char_of)
    moreover from True have "(of_char c :: nat) + 32 < 256" by auto
    ultimately show ?thesis by simp
  next
    case False
    with h show ?thesis by (simp add: lower_char_def Let_def)
  qed
next
  assume "c = t \<or> (of_char c :: nat) + 32 = of_char t"
  then show "lower_char c = t"
  proof
    assume "c = t"
    with assms show ?thesis by (simp add: lower_char_def Let_def)
  next
    assume e: "(of_char c :: nat) + 32 = of_char t"
    with assms have "65 \<le> (of_char c :: nat) \<and> (of_char c :: nat) \<le> 90" by auto
    then have "lower_char c = char_of ((of_char c :: nat) + 32)" by (simp add: lower_char_def Let_def)
    also have "\<dots> = t" by (simp only: e char_of_char)
    finally show ?thesis .
  qed
qed

lemma upper_chars:
  "char_of (82::nat) = CHR ''R''" "char_of (69::nat) = CHR ''E''"
  "char_of (83::nat) = CHR ''S''" "char_of (84::nat) = CHR ''T''"
  by code_simp+

lemma of_char_upper:
  "(of_char c :: nat) = 82 \<longleftrightarrow> c = CHR ''R''" "(of_char c :: nat) = 69 \<longleftrightarrow> c = CHR ''E''"
  "(of_char c :: nat) = 83 \<longleftrightarrow> c = CHR ''S''" "(of_char c :: nat) = 84 \<longleftrightarrow> c = CHR ''T''"
  using char_of_of_char_nat[of c 82] char_of_of_char_nat[of c 69]
    char_of_of_char_nat[of c 83] char_of_of_char_nat[of c 84]
  by (auto simp: upper_chars)

lemma lower_char_rest:
  "lower_char c = CHR ''r'' \<longleftrightarrow> c \<in> set ''rR''"
  "lower_char c = CHR ''e'' \<longleftrightarrow> c \<in> set ''eE''"
  "lower_char c = CHR ''s'' \<longleftrightarrow> c \<in> set ''sS''"
  "lower_char c = CHR ''t'' \<longleftrightarrow> c \<in> set ''tT''"
  by (auto simp: lower_char_iff of_char_upper)

lemma py_lower_rest: "py_lower w = ''rest'' \<longleftrightarrow> spec_is_rest w"
proof -
  have "py_lower w = ''rest'' \<longleftrightarrow>
      (\<exists>a b c d. w = [a, b, c, d] \<and> lower_char a = CHR ''r'' \<and> lower_char b = CHR ''e''
         \<and> lower_char c = CHR ''s'' \<and> lower_char d = CHR ''t'')"
    unfolding py_lower_def by (auto simp: map_eq_Cons_conv)
  then show ?thesis
    unfolding spec_is_rest_def by (simp only: lower_char_rest)
qed

lemma digit_val_digit: "c \<in> set ''0123456789'' \<Longrightarrow> digit_val c = Some (of_char c - 48)"
  by (auto simp: digit_val_def)

lemma int_digits_decimal:
  "w \<noteq> [] \<Longrightarrow> set w \<subseteq> set ''0123456789'' \<Longrightarrow>
     int_digits acc w = Some (foldl (\<lambda>acc c. acc * 10 + (of_char c - 48)) acc w)"
proof (induction acc w rule: int_digits.induct)
  case (1 acc)
  then show ?case by simp
next
  case (2 acc c)
  then show ?case by (simp add: digit_val_digit)
next
  case (3 acc c d cs)
  from "3.prems" have c: "digit_val c = Some (of_char c - 48)" by (simp add: digit_val_digit)
  from "3.prems" have d: "d \<noteq> CHR ''_''" by auto
  from "3.prems" have "set (d # cs) \<subseteq> set ''0123456789''" by simp
  with "3.IH"[OF c] d have
    "int_digits (acc * 10 + (of_char c - 48)) (d # cs)
       = Some (foldl (\<lambda>acc c. acc * 10 + (of_char c - 48)) (acc * 10 + (of_char c - 48)) (d # cs))"
    by simp
  with c d show ?case by simp
qed

lemma digit_not_int_isspace: "c \<in> set ''0123456789'' \<Longrightarrow> \<not> int_isspace c"
  by (auto simp: int_isspace_def)

lemma py_int_decimal:
  assumes "spec_decimal w"
  shows "py_int w = Inr (decimal_value w)"
proof -
  from assms have ne: "w \<noteq> []" and dig: "set w \<subseteq> set ''0123456789''"
    by (auto simp: spec_decimal_def)
  from ne obtain c cs where w: "w = c # cs" by (cases w) auto
  have "hd w \<in> set w" "last w \<in> set w" using ne by simp_all
  with dig have "hd w \<in> set ''0123456789''" "last w \<in> set ''0123456789''"
    by blast+
  then have h: "\<not> int_isspace (hd w)" "\<not> int_isspace (last w)"
    by (simp_all only: digit_not_int_isspace not_False_eq_True)
  have 1: "dropWhile int_isspace w = w" using h(1) w by simp
  have "dropWhile int_isspace (rev w) = rev w"
    using h(2) ne by (cases "rev w") (auto simp: last_rev[symmetric] hd_rev)
  with 1 have strip: "rev (dropWhile int_isspace (rev (dropWhile int_isspace w))) = c # cs"
    using w by simp
  from dig w have "c \<noteq> CHR ''-''" "c \<noteq> CHR ''+''" by auto
  then show ?thesis
    unfolding py_int_def strip
    using int_digits_decimal[OF ne dig, of 0] w by (simp add: decimal_value_def)
qed

lemma spec_decimal_isdigit: "spec_decimal w \<Longrightarrow> py_isdigit w"
  by (auto simp: spec_decimal_def py_isdigit_def list_all_iff isdigit_char_def)

lemma spec_rest_not_decimal: "spec_is_rest w \<Longrightarrow> \<not> spec_decimal w"
  by (auto simp: spec_is_rest_def spec_decimal_def)

lemma parse_loop_classify:
  "\<forall>w\<in>set ws. py_isdigit w \<longrightarrow> py_lower w = ''rest'' \<or> spec_decimal w \<Longrightarrow>
     parse_loop ws parsed = Inr (parsed @ map spec_classify ws)"
proof (induction ws arbitrary: parsed)
  case Nil
  then show ?case by simp
next
  case (Cons w ws)
  then have ih: "\<And>p. parse_loop ws p = Inr (p @ map spec_classify ws)" by simp
  show ?case
  proof (cases "py_lower w = ''rest''")
    case True
    then show ?thesis by (simp add: ih spec_classify_def py_lower_rest)
  next
    case nr: False
    show ?thesis
    proof (cases "py_isdigit w")
      case True
      with Cons.prems nr have "spec_decimal w" by simp
      with nr True show ?thesis
        by (simp add: ih spec_classify_def py_lower_rest py_int_decimal)
    next
      case False
      then have "\<not> spec_decimal w" by (auto dest: spec_decimal_isdigit)
      with nr False show ?thesis by (simp add: ih spec_classify_def py_lower_rest)
    qed
  qed
qed

lemma py_split_empty: "dropWhile py_isspace s = [] \<Longrightarrow> py_split s = []"
  by (subst py_split.simps) (simp only: list.case)

lemma py_split_word:
  "dropWhile py_isspace s = c # cs \<Longrightarrow>
     py_split s = takeWhile (\<lambda>x. \<not> py_isspace x) (c # cs)
                  # py_split (dropWhile (\<lambda>x. \<not> py_isspace x) cs)"
  by (subst py_split.simps) (simp only: list.case)

lemma dropWhile_Cons_head: "dropWhile P xs = c # cs \<Longrightarrow> \<not> P c"
  by (metis hd_dropWhile list.distinct(1) list.sel(1))

lemma py_split_Nil: "py_split [] = []"
  by (simp add: py_split.simps)

lemma py_split_dropWhile: "py_split (dropWhile py_isspace s) = py_split s"
  by (subst (1 2) py_split.simps) (simp add: dropWhile_idem)

lemma py_split_trailing:
  "\<forall>c\<in>set ws. py_isspace c \<Longrightarrow> py_split (t @ ws) = py_split t"
proof (induction t rule: py_split.induct)
  case (1 s)
  have ws: "dropWhile (\<lambda>x. \<not> py_isspace x) ws = ws"
    "takeWhile (\<lambda>x. \<not> py_isspace x) ws = []"
    using "1.prems" by (cases ws; simp)+
  show ?case
  proof (cases "dropWhile py_isspace s")
    case Nil
    then have "\<forall>c\<in>set s. py_isspace c" by (simp add: dropWhile_eq_Nil_conv)
    then have "dropWhile py_isspace (s @ ws) = []"
      using "1.prems" by (simp add: dropWhile_eq_Nil_conv)
    then have "py_split (s @ ws) = []" by (rule py_split_empty)
    moreover have "py_split s = []" using Nil by (rule py_split_empty)
    ultimately show ?thesis by simp
  next
    case (Cons c cs)
    have c: "\<not> py_isspace c" using Cons by (rule dropWhile_Cons_head)
    have "\<not> (\<forall>x\<in>set s. py_isspace x)"
    proof
      assume "\<forall>x\<in>set s. py_isspace x"
      then have "dropWhile py_isspace s = []" by (simp add: dropWhile_eq_Nil_conv)
      with Cons show False by simp
    qed
    then obtain x where "x \<in> set s" "\<not> py_isspace x" by blast
    then have "dropWhile py_isspace (s @ ws) = dropWhile py_isspace s @ ws"
      by (rule dropWhile_append1)
    then have d: "dropWhile py_isspace (s @ ws) = c # (cs @ ws)"
      by (simp only: Cons append_Cons)
    have tk: "takeWhile (\<lambda>x. \<not> py_isspace x) (cs @ ws) = takeWhile (\<lambda>x. \<not> py_isspace x) cs"
    proof (cases "\<forall>x\<in>set cs. \<not> py_isspace x")
      case True
      then have a: "takeWhile (\<lambda>x. \<not> py_isspace x) (cs @ ws)
          = cs @ takeWhile (\<lambda>x. \<not> py_isspace x) ws"
        by (intro takeWhile_append2) simp
      from True have b: "takeWhile (\<lambda>x. \<not> py_isspace x) cs = cs"
        by (simp add: takeWhile_eq_all_conv)
      show ?thesis by (simp only: a b ws append_Nil2)
    next
      case False
      then obtain x where "x \<in> set cs" "\<not> \<not> py_isspace x" by blast
      then show ?thesis by (rule takeWhile_append1)
    qed
    have dr: "dropWhile (\<lambda>x. \<not> py_isspace x) (cs @ ws) = dropWhile (\<lambda>x. \<not> py_isspace x) cs @ ws"
    proof (cases "\<forall>x\<in>set cs. \<not> py_isspace x")
      case True
      then have a: "dropWhile (\<lambda>x. \<not> py_isspace x) (cs @ ws) = dropWhile (\<lambda>x. \<not> py_isspace x) ws"
        by (intro dropWhile_append2) simp
      from True have b: "dropWhile (\<lambda>x. \<not> py_isspace x) cs = []"
        by (simp add: dropWhile_eq_Nil_conv)
      show ?thesis by (simp only: a b ws append_Nil)
    next
      case False
      then obtain x where "x \<in> set cs" "\<not> \<not> py_isspace x" by blast
      then show ?thesis by (rule dropWhile_append1)
    qed
    have ih: "py_split (dropWhile (\<lambda>x. \<not> py_isspace x) cs @ ws)
        = py_split (dropWhile (\<lambda>x. \<not> py_isspace x) cs)"
      using "1.IH"[OF Cons "1.prems"] .
    have "py_split (s @ ws) = takeWhile (\<lambda>x. \<not> py_isspace x) (c # (cs @ ws))
        # py_split (dropWhile (\<lambda>x. \<not> py_isspace x) (cs @ ws))"
      using d by (rule py_split_word)
    also have "\<dots> = takeWhile (\<lambda>x. \<not> py_isspace x) (c # cs)
        # py_split (dropWhile (\<lambda>x. \<not> py_isspace x) cs)"
      using c by (simp add: tk dr ih)
    also have "\<dots> = py_split s"
      using Cons by (rule py_split_word[symmetric])
    finally show ?thesis .
  qed
qed

lemma py_split_strip: "py_split (py_strip s) = py_split s"
proof -
  define t where "t = dropWhile py_isspace s"
  define tl where "tl = rev (takeWhile py_isspace (rev t))"
  have "rev t = takeWhile py_isspace (rev t) @ dropWhile py_isspace (rev t)"
    by (simp only: takeWhile_dropWhile_id)
  then have "rev (rev t) = rev (takeWhile py_isspace (rev t) @ dropWhile py_isspace (rev t))"
    by (rule arg_cong)
  then have t: "t = rev (dropWhile py_isspace (rev t)) @ tl"
    by (simp only: rev_rev_ident rev_append tl_def)
  have "\<forall>c\<in>set tl. py_isspace c"
    unfolding tl_def by (auto dest: set_takeWhileD)
  then have "py_split (rev (dropWhile py_isspace (rev t)) @ tl)
      = py_split (rev (dropWhile py_isspace (rev t)))"
    by (rule py_split_trailing)
  with t have e: "py_split t = py_split (rev (dropWhile py_isspace (rev t)))" by simp
  have "py_split (py_strip s) = py_split (rev (dropWhile py_isspace (rev t)))"
    by (simp only: py_strip_def t_def)
  also have "\<dots> = py_split t" using e by (rule sym)
  also have "\<dots> = py_split s" unfolding t_def by (rule py_split_dropWhile)
  finally show ?thesis .
qed

lemma py_split_words:
  "w \<in> set (py_split s) \<Longrightarrow> w \<noteq> [] \<and> (\<forall>c\<in>set w. \<not> py_isspace c)"
proof (induction s rule: py_split.induct)
  case (1 s)
  show ?case
  proof (cases "dropWhile py_isspace s")
    case Nil
    then have "py_split s = []" by (rule py_split_empty)
    with "1.prems" show ?thesis by simp
  next
    case (Cons c cs)
    have c: "\<not> py_isspace c" using Cons by (rule dropWhile_Cons_head)
    from "1.prems" py_split_word[OF Cons] have
      "w = takeWhile (\<lambda>x. \<not> py_isspace x) (c # cs)
       \<or> w \<in> set (py_split (dropWhile (\<lambda>x. \<not> py_isspace x) cs))"
      by simp
    then show ?thesis
    proof
      assume "w = takeWhile (\<lambda>x. \<not> py_isspace x) (c # cs)"
      then show ?thesis using c by (auto dest: set_takeWhileD)
    next
      assume "w \<in> set (py_split (dropWhile (\<lambda>x. \<not> py_isspace x) cs))"
      then show ?thesis by (rule "1.IH"[OF Cons])
    qed
  qed
qed

lemma py_split_join:
  assumes "\<forall>w\<in>set ws. w \<noteq> [] \<and> (\<forall>c\<in>set w. \<not> py_isspace c)"
    and "sep \<noteq> []" and "\<forall>c\<in>set sep. py_isspace c"
  shows "py_split (concat (map (\<lambda>w. sep @ w) ws)) = ws"
  using assms(1)
proof (induction ws)
  case Nil
  then show ?case by (simp add: py_split_Nil)
next
  case (Cons w ws)
  define rest where "rest = concat (map (\<lambda>w. sep @ w) ws)"
  from Cons.prems obtain c cs where w: "w = c # cs" and c: "\<not> py_isspace c"
    and cs: "\<forall>x\<in>set cs. \<not> py_isspace x"
    by (cases w) auto
  have "dropWhile py_isspace (sep @ (c # cs @ rest)) = dropWhile py_isspace (c # cs @ rest)"
    using assms(3) by (intro dropWhile_append2) simp
  then have d: "dropWhile py_isspace (sep @ w @ rest) = c # (cs @ rest)"
    using c by (simp add: w)
  have r: "rest = [] \<or> (\<exists>x xs. rest = x # xs \<and> py_isspace x)"
  proof (cases ws)
    case Nil
    then show ?thesis by (simp add: rest_def)
  next
    case (Cons v vs)
    with assms(2,3) show ?thesis by (cases sep) (auto simp: rest_def)
  qed
  have tk0: "takeWhile (\<lambda>x. \<not> py_isspace x) rest = []" using r by auto
  have dr0: "dropWhile (\<lambda>x. \<not> py_isspace x) rest = rest" using r by auto
  have "takeWhile (\<lambda>x. \<not> py_isspace x) (cs @ rest) = cs @ takeWhile (\<lambda>x. \<not> py_isspace x) rest"
    using cs by (intro takeWhile_append2) simp
  then have tk: "takeWhile (\<lambda>x. \<not> py_isspace x) (cs @ rest) = cs"
    by (simp only: tk0 append_Nil2)
  have "dropWhile (\<lambda>x. \<not> py_isspace x) (cs @ rest) = dropWhile (\<lambda>x. \<not> py_isspace x) rest"
    using cs by (intro dropWhile_append2) simp
  then have dr: "dropWhile (\<lambda>x. \<not> py_isspace x) (cs @ rest) = rest"
    by (simp only: dr0)
  have ih: "py_split rest = ws" using Cons by (simp add: rest_def)
  have "py_split (sep @ w @ rest) = takeWhile (\<lambda>x. \<not> py_isspace x) (c # (cs @ rest))
        # py_split (dropWhile (\<lambda>x. \<not> py_isspace x) (cs @ rest))"
    using d by (rule py_split_word)
  also have "\<dots> = w # ws"
    using c by (simp add: tk dr ih w)
  finally show ?case by (simp add: rest_def)
qed

lemma parse_notes_classify:
  assumes "\<forall>w\<in>set (py_split s). py_isdigit w \<longrightarrow> spec_decimal w"
  shows "parse_notes s = Inr (map spec_classify (py_split s))"
  using assms by (simp add: parse_notes_def py_split_strip parse_loop_classify)

lemma int_digits_None:
  "c \<in> set w \<Longrightarrow> digit_val c = None \<Longrightarrow> c \<noteq> CHR ''_'' \<Longrightarrow> int_digits acc w = None"
proof (induction acc w rule: int_digits.induct)
  case (1 acc)
  then show ?case by simp
next
  case (2 acc x)
  then show ?case by simp
next
  case (3 acc x d cs)
  show ?case
  proof (cases "digit_val x")
    case None
    then show ?thesis by simp
  next
    case (Some v)
    with "3.prems" have "c \<noteq> x" by auto
    with "3.prems" have "c \<in> set (if d = CHR ''_'' then cs else d # cs)" by auto
    from "3.IH"[OF Some this "3.prems"(2,3)] Some show ?thesis by simp
  qed
qed

lemma isdigit_char_not_space: "isdigit_char c \<Longrightarrow> \<not> int_isspace c"
  by (auto simp: isdigit_char_def int_isspace_def Let_def)

lemma isdigit_char_not_sign: "isdigit_char c \<Longrightarrow> c \<noteq> CHR ''-'' \<and> c \<noteq> CHR ''+'' \<and> c \<noteq> CHR ''_''"
  by (auto simp: isdigit_char_def Let_def)

lemma py_int_superscript:
  assumes "py_isdigit w" "\<not> spec_decimal w"
  shows "py_int w = Inl (InvalidLiteral w)"
proof -
  from assms(1) have ne: "w \<noteq> []" and dig: "\<forall>c\<in>set w. isdigit_char c"
    by (auto simp: py_isdigit_def list_all_iff)
  from ne obtain c cs where w: "w = c # cs" by (cases w) auto
  have "hd w \<in> set w" "last w \<in> set w" using ne by simp_all
  with dig have "isdigit_char (hd w)" "isdigit_char (last w)" by blast+
  then have h: "\<not> int_isspace (hd w)" "\<not> int_isspace (last w)"
    by (simp_all only: isdigit_char_not_space not_False_eq_True)
  have 1: "dropWhile int_isspace w = w" using h(1) w by simp
  have "dropWhile int_isspace (rev w) = rev w"
    using h(2) ne by (cases "rev w") (auto simp: last_rev[symmetric] hd_rev)
  with 1 have strip: "rev (dropWhile int_isspace (rev (dropWhile int_isspace w))) = c # cs"
    using w by simp
  from dig w have sign: "c \<noteq> CHR ''-''" "c \<noteq> CHR ''+''"
    using isdigit_char_not_sign[of c] by auto
  from assms(2) ne obtain x where x: "x \<in> set w" "x \<notin> set ''0123456789''"
    unfolding spec_decimal_def by blast
  then have "digit_val x = None" by (simp only: digit_val_None_iff not_False_eq_True)
  moreover from x dig have "x \<noteq> CHR ''_''" using isdigit_char_not_sign[of x] by auto
  ultimately have "int_digits 0 w = None" using x(1) by (intro int_digits_None)
  then show ?thesis
    unfolding py_int_def strip using sign w by simp
qed

lemma isdigit_not_rest: "py_isdigit w \<Longrightarrow> py_lower w \<noteq> ''rest''"
proof
  assume d: "py_isdigit w" and "py_lower w = ''rest''"
  then obtain a b c e where "w = [a, b, c, e]" "a \<in> set ''rR''"
    by (auto simp: py_lower_rest spec_is_rest_def)
  with d have "isdigit_char a" "a \<in> set ''rR''" by (auto simp: py_isdigit_def)
  then show False by (auto simp: isdigit_char_def)
qed

lemma parse_loop_raises:
  "w \<in> set ws \<Longrightarrow> py_isdigit w \<Longrightarrow> \<not> spec_decimal w \<Longrightarrow> isl (parse_loop ws parsed)"
proof (induction ws arbitrary: parsed)
  case Nil
  then show ?case by simp
next
  case (Cons v ws)
  show ?case
  proof (cases "v = w")
    case True
    with Cons.prems show ?thesis
      by (simp add: isdigit_not_rest py_int_superscript)
  next
    case False
    with Cons.prems have "w \<in> set ws" by simp
    then have "\<And>p. isl (parse_loop ws p)" using Cons.IH Cons.prems(2,3) by blast
    then show ?thesis by (simp split: sum.split)
  qed
qed

lemma parse_notes_raises:
  "w \<in> set (py_split s) \<Longrightarrow> py_isdigit w \<Longrightarrow> \<not> spec_decimal w \<Longrightarrow> isl (parse_notes s)"
  by (simp add: parse_notes_def py_split_strip parse_loop_raises)

text \<open>
  C4. Parsing is meant never to raise. It does on a word of digit characters that \<open>int\<close>
  rejects: \<open>isdigit\<close> accepts the superscript digits, \<open>int\<close> does not, and the
  \<open>ValueError\<close> of \<open>int\<close> leaves \<open>parse_notes\<close>. The input here is the one-character
  string of superscript two (code point 0xB2).
\<close>

theorem parse_notes_superscript_raises:
  "parse_notes [CHR 0xB2] = Inl (InvalidLiteral [CHR 0xB2])"
  by (simp add: parse_notes_def py_strip_def py_isspace_def py_lower_def lower_char_def
      py_isdigit_def isdigit_char_def py_int_def int_isspace_def digit_val_def py_split.simps)

text \<open>
  C2. Every whitespace-delimited word is meant to give one token, and a word that is neither
  "rest" nor made of decimal digits a name token. On "C4", superscript two, "D4" the
  specification's classification gives three name tokens; \<open>parse_notes\<close> returns no tokens
  at all, because \<open>int\<close> raises on the second word.
\<close>

theorem parse_notes_word_lost:
  "parse_notes (''C4 '' @ [CHR 0xB2] @ '' D4'') = Inl (InvalidLiteral [CHR 0xB2])
   \<and> map spec_classify (py_split (''C4 '' @ [CHR 0xB2] @ '' D4''))
       = [Name ''C4'', Name [CHR 0xB2], Name ''D4'']"
  by (simp add: parse_notes_def py_strip_def py_isspace_def py_lower_def lower_char_def
      py_isdigit_def isdigit_char_def py_int_def int_isspace_def digit_val_def py_split.simps
      spec_classify_def spec_is_rest_def spec_decimal_def)

lemma parse_examples:
  "parse_notes '''' = Inr []"
  "parse_notes ''C4 D4 rest E4'' = Inr [Name ''C4'', Name ''D4'', Rest, Name ''E4'']"
  "parse_notes ''60 62 64'' = Inr [Midi 60, Midi 62, Midi 64]"
  by (simp_all add: parse_notes_def py_strip_def py_isspace_def py_lower_def lower_char_def
      py_isdigit_def isdigit_char_def py_int_def int_isspace_def digit_val_def py_split.simps)


section \<open>Properties of the audio functions\<close>

lemma overflow_Fin: "overflow r = Fin v \<Longrightarrow> v = r"
  by (simp add: overflow_def split: if_splits)

lemma overflow_zero: "overflow 0 = Fin 0"
  by (simp add: overflow_def)

lemma f_add_Fin: "f_add x y = Fin v \<Longrightarrow> \<exists>a b. x = Fin a \<and> y = Fin b \<and> v = a + b"
  by (cases x; cases y) (auto dest: overflow_Fin)

lemma f_mul_Fin: "f_mul x y = Fin v \<Longrightarrow> \<exists>a b. x = Fin a \<and> y = Fin b \<and> v = a * b"
  by (cases x; cases y) (auto dest: overflow_Fin split: if_splits)




lemma overflow_small: "\<bar>r\<bar> \<le> 10000 \<Longrightarrow> overflow r = Fin r"
  by (auto simp: overflow_def)

lemma overflow_large: "10 ^ 350 \<le> r \<Longrightarrow> overflow r = PInf"
proof -
  assume "10 ^ 350 \<le> r"
  moreover have "(2::real) ^ 1024 - 2 ^ 970 \<le> 10 ^ 350" by simp
  ultimately have t: "2 ^ 1024 - 2 ^ 970 \<le> r" by linarith
  show ?thesis by (simp only: overflow_def t if_True)
qed

text \<open>
  NaN also arises from finite samples: with a target level of 7000 dB the gain is too large
  for a double, and the zero sample times the infinite gain is NaN.
\<close>

lemma normalize_audio_gain_overflow:
  "normalize_audio [Fin 0, Fin 1] (Fin 7000) = [NaN, Fin 1]"
proof -
  define L where "L = log 10 (sqrt (1 / 2))"
  have s: "1 / 10 < sqrt (1 / 2)" "sqrt (1 / 2) < 1"
  proof -
    show "1 / 10 < sqrt (1 / 2)"
      by (rule real_less_rsqrt) (simp add: power2_eq_square)
    show "sqrt (1 / 2) < 1" by simp
  qed
  have L: "- 1 < L" "L < 0"
  proof -
    have "log 10 (1 / 10) < log 10 (sqrt (1 / 2))"
      using s(1) by (subst log_less_cancel_iff) auto
    then show "- 1 < L" by (simp add: L_def log_divide)
    have "log 10 (sqrt (1 / 2)) < log 10 1"
      using s by (subst log_less_cancel_iff) auto
    then show "L < 0" by (simp add: L_def)
  qed
  have sq: "map (\<lambda>x. f_mul x x) [Fin 0, Fin 1] = [Fin 0, Fin 1]"
    by (simp add: overflow_small)
  have rms: "np_sqrt (np_mean [Fin 0, Fin 1]) = Fin (sqrt (1 / 2))"
    by (simp add: np_mean_def overflow_small)
  have gt: "f_gt (Fin (sqrt (1 / 2))) (Fin 0)" using s by simp
  have lg: "np_log10 (Fin (sqrt (1 / 2))) = Fin L"
    using s by (simp add: L_def)
  have db: "f_mul (Fin 20) (Fin L) = Fin (20 * L)"
    using L by (simp add: overflow_small)
  have gd: "f_sub (Fin 7000) (Fin (20 * L)) = Fin (7000 - 20 * L)"
    using L by (simp add: f_sub_def overflow_small)
  have dv: "f_div (Fin (7000 - 20 * L)) (Fin 20) = Fin (350 - L)"
  proof -
    have "(7000 - 20 * L) / 20 = 350 - L" by simp
    then show ?thesis using L by (simp add: overflow_small)
  qed
  have "(10::real) powr 350 \<le> 10 powr (350 - L)"
    using L by (intro powr_mono) auto
  then have "(10::real) ^ 350 \<le> 10 powr (350 - L)" by simp
  then have gain: "pow10 (Fin (350 - L)) = PInf"
    by (simp only: pow10.simps overflow_large)
  show ?thesis
    unfolding normalize_audio_def Let_def sq rms lg db gd dv gain using gt by simp
qed

lemma foldl_f_add_Fin:
  "foldl f_add acc xs = Fin s \<Longrightarrow> is_finite acc \<and> list_all is_finite xs"
proof (induction xs arbitrary: acc)
  case Nil
  then show ?case by simp
next
  case (Cons x xs)
  then have "is_finite (f_add acc x)" "list_all is_finite xs" by auto
  then obtain v where "f_add acc x = Fin v" by (cases "f_add acc x") auto
  from f_add_Fin[OF this] \<open>list_all is_finite xs\<close> show ?case by auto
qed

lemma foldl_squares:
  "foldl f_add acc (map (\<lambda>x. f_mul x x) xs) = Fin s \<Longrightarrow>
     list_all is_finite xs \<and> s = val acc + sum_list (map (\<lambda>x. (val x)\<^sup>2) xs)"
proof (induction xs arbitrary: acc)
  case Nil
  then show ?case by simp
next
  case (Cons x xs)
  from Cons.prems have f: "foldl f_add (f_add acc (f_mul x x)) (map (\<lambda>x. f_mul x x) xs) = Fin s"
    by simp
  from Cons.IH[OF f] have xs: "list_all is_finite xs"
    and s: "s = val (f_add acc (f_mul x x)) + sum_list (map (\<lambda>x. (val x)\<^sup>2) xs)" by auto
  from foldl_f_add_Fin[OF f] obtain v where v: "f_add acc (f_mul x x) = Fin v"
    by (cases "f_add acc (f_mul x x)") auto
  from f_add_Fin[OF v] obtain a q where a: "acc = Fin a" and q: "f_mul x x = Fin q"
    and vs: "v = a + q" by auto
  from f_mul_Fin[OF q] obtain b where b: "x = Fin b" and qb: "q = b * b" by auto
  from xs s v vs a b qb show ?case by (simp add: power2_eq_square)
qed

lemma zero_rms_all_zero:
  assumes "np_sqrt (np_mean (map (\<lambda>x. f_mul x x) audio)) = Fin 0"
  shows "\<forall>x\<in>set audio. x = Fin 0"
proof -
  let ?S = "foldl f_add (Fin 0) (map (\<lambda>x. f_mul x x) audio)"
  obtain m where m: "np_mean (map (\<lambda>x. f_mul x x) audio) = Fin m" and "sqrt m = 0"
    using assms by (cases "np_mean (map (\<lambda>x. f_mul x x) audio)") (auto split: if_splits)
  then have m0: "m = 0" by simp
  from m obtain s where S: "?S = Fin s"
    by (cases ?S) (auto simp: np_mean_def split: if_splits)
  with m m0 have "s = 0"
    by (auto simp: np_mean_def dest: overflow_Fin split: if_splits)
  with foldl_squares[OF S] have fin: "list_all is_finite audio"
    and z: "sum_list (map (\<lambda>x. (val x)\<^sup>2) audio) = 0" by auto
  have "\<forall>y\<in>set (map (\<lambda>x. (val x)\<^sup>2) audio). y = 0"
    using z by (subst (asm) sum_list_nonneg_eq_0_iff) auto
  then have v: "\<forall>x\<in>set audio. val x = 0" by simp
  show ?thesis
  proof (intro ballI)
    fix x assume "x \<in> set audio"
    with fin v have "is_finite x" "val x = 0"
      by (auto simp: list_all_iff)
    then show "x = Fin 0" by (cases x) auto
  qed
qed

text \<open>
  C7. A buffer whose RMS is 0 is returned unchanged: the gain branch is skipped and clipping
  changes nothing. The empty buffer, whose RMS is NaN, is returned unchanged as well. The
  function has no raising branch.
\<close>

theorem normalize_audio_silence:
  "(np_sqrt (np_mean (map (\<lambda>x. f_mul x x) audio)) = Fin 0 \<longrightarrow>
      normalize_audio audio target_level = audio)
   \<and> normalize_audio [] target_level = []"
proof (intro conjI impI)
  assume h: "np_sqrt (np_mean (map (\<lambda>x. f_mul x x) audio)) = Fin 0"
  then have "normalize_audio audio target_level = map (np_clip (- 1) 1) audio"
    by (simp add: normalize_audio_def Let_def)
  also have "\<dots> = audio"
    using zero_rms_all_zero[OF h] by (intro map_idI) auto
  finally show "normalize_audio audio target_level = audio" .
next
  show "normalize_audio [] target_level = []"
    by (simp add: normalize_audio_def Let_def)
qed

theorem normalize_audio_silence_witness:
  "np_sqrt (np_mean (map (\<lambda>x. f_mul x x) [Fin 0, Fin 0, Fin 0])) = Fin 0
   \<and> normalize_audio [Fin 0, Fin 0, Fin 0] (Fin (- 20)) = [Fin 0, Fin 0, Fin 0]"
proof -
  have r: "np_sqrt (np_mean (map (\<lambda>x. f_mul x x) [Fin 0, Fin 0, Fin 0])) = Fin 0"
    by (simp add: np_mean_def overflow_zero)
  show ?thesis
    using normalize_audio_silence [of "[Fin 0, Fin 0, Fin 0]" "Fin (- 20)"] r by simp
qed

lemma pow2_powr: "pow2 k = 2 powr (real_of_int k)"
proof (cases "0 \<le> k")
  case True
  then have "real_of_int k = real (nat k)" by simp
  then have "(2::real) powr (real_of_int k) = 2 ^ nat k"
    by (simp only: powr_realpow zero_less_numeral)
  with True show ?thesis by (simp add: pow2_def)
next
  case False
  then have "real_of_int k = - real (nat (- k))" by simp
  then have "(2::real) powr (real_of_int k) = inverse (2 powr real (nat (- k)))"
    by (simp only: powr_minus)
  also have "\<dots> = inverse (2 ^ nat (- k))"
    by (simp only: powr_realpow zero_less_numeral)
  finally show ?thesis using False by (simp add: pow2_def inverse_eq_divide)
qed

lemma floor_log2:
  assumes "pow2 k \<le> \<bar>x\<bar>" "\<bar>x\<bar> < pow2 (k + 1)"
  shows "\<lfloor>log 2 \<bar>x\<bar>\<rfloor> = k"
proof -
  have "0 < pow2 k" by (simp add: pow2_powr)
  with assms(1) have pos: "0 < \<bar>x\<bar>" by linarith
  have "2 powr (real_of_int k) \<le> \<bar>x\<bar> \<and> \<bar>x\<bar> < 2 powr (real_of_int (k + 1))"
    using assms by (simp only: pow2_powr)
  then show ?thesis
    using pos by (simp add: floor_log_eq_powr_iff)
qed

lemma fl_round_eval:
  assumes "pow2 k \<le> \<bar>x\<bar>" "\<bar>x\<bar> < pow2 (k + 1)" "- 1022 \<le> k"
  shows "fl_round x =
     (let y = of_int (round_half_even (x / pow2 (k - 52))) * pow2 (k - 52)
      in if 2 ^ 1024 \<le> \<bar>y\<bar> then (if 0 < x then PInf else NInf) else Fin y)"
proof -
  have "0 < pow2 k" by (simp add: pow2_powr)
  with assms(1) have "x \<noteq> 0" by auto
  moreover have "max \<lfloor>log 2 \<bar>x\<bar>\<rfloor> (- 1022) = k"
    using floor_log2[OF assms(1,2)] assms(3) by simp
  ultimately show ?thesis by (simp add: fl_round_def Let_def)
qed

lemma fl_round_48000: "fl_round 48000 = Fin 48000"
  by (subst fl_round_eval[where k = 15]) (simp_all add: pow2_def round_half_even_def)

lemma fl_round_144000: "fl_round 144000 = Fin 144000"
  by (subst fl_round_eval[where k = 17]) (simp_all add: pow2_def round_half_even_def)

lemma fl_round_m48000: "fl_round (- 48000) = Fin (- 48000)"
  by (subst fl_round_eval[where k = 15]) (simp_all add: pow2_def round_half_even_def)

lemma fl_round_3: "fl_round 3 = Fin 3"
  by (subst fl_round_eval[where k = 1]) (simp_all add: pow2_def round_half_even_def)

lemma fl_round_10: "fl_round 10 = Fin 10"
  by (subst fl_round_eval[where k = 3]) (simp_all add: pow2_def round_half_even_def)

lemma fl_round_3_2: "fl_round (3 / 2) = Fin (3 / 2)"
  by (subst fl_round_eval[where k = 0]) (simp_all add: pow2_def round_half_even_def)

lemma fl_round_seven: "fl_round (3152519739159347 / 4503599627370496 * 10) = Fin 7"
  by (subst fl_round_eval[where k = 2]) (simp_all add: pow2_def round_half_even_def)

lemma fl_round_14400: "fl_round (5404319552844595 / 18014398509481984 * 48000) = Fin 14400"
  by (subst fl_round_eval[where k = 13]) (simp_all add: pow2_def round_half_even_def)


lemma float_of_int_too_large: "float_of_int (2 ^ 1024) = Inl IntToFloat"
proof -
  have "fl_round (2 ^ 1024) = PInf"
    by (subst fl_round_eval[where k = 1024]) (simp_all add: pow2_def round_half_even_def)
  then show ?thesis by (simp add: float_of_int_def)
qed

text \<open>
  C5 as amended. When the product \<open>duration * sr\<close>, as Python computes it, is a finite
  number \<open>p \<ge> 0\<close>, \<open>generate_silence\<close> returns \<open>floor(p)\<close> samples, all 0.0; for 1.0 and 48000
  these are 48000 samples.
\<close>

theorem generate_silence_nonneg:
  "(float_times_int (Fin d) sr = Inr (Fin p) \<and> 0 \<le> p \<longrightarrow>
      generate_silence (Fin d) sr = Inr (replicate (nat \<lfloor>p\<rfloor>) (Fin 0)))
   \<and> generate_silence (Fin 1) 48000 = Inr (replicate 48000 (Fin 0))"
proof (intro conjI impI)
  assume "float_times_int (Fin d) sr = Inr (Fin p) \<and> 0 \<le> p"
  then show "generate_silence (Fin d) sr = Inr (replicate (nat \<lfloor>p\<rfloor>) (Fin 0))"
    by (simp add: generate_silence_def int_of_float_def zeros_def)
next
  have "float_times_int (Fin 1) 48000 = Inr (Fin 48000)"
    by (simp add: float_times_int_def float_of_int_def fl_round_48000)
  then show "generate_silence (Fin 1) 48000 = Inr (replicate 48000 (Fin 0))"
    by (simp add: generate_silence_def int_of_float_def zeros_def)
qed

theorem generate_silence_nonneg_witness:
  "float_times_int (Fin (1 / 2)) 3 = Inr (Fin (3 / 2)) \<and> (0::real) \<le> 3 / 2
   \<and> generate_silence (Fin (1 / 2)) 3 = Inr [Fin 0]"
proof -
  have p: "float_times_int (Fin (1 / 2)) 3 = Inr (Fin (3 / 2))"
    using fl_round_3_2 by (simp add: float_times_int_def float_of_int_def fl_round_3)
  show ?thesis
    using generate_silence_nonneg [of "1 / 2" 3 "3 / 2"] p by simp
qed

text \<open>
  C5 as stated fails: for a duration of -1.0 at 48000 Hz no buffer is returned, the size
  -48000 is refused.
\<close>

theorem generate_silence_negative_counterexample:
  "generate_silence (Fin (- 1)) 48000 = Inl NegativeDimensions"
  using fl_round_m48000
  by (simp add: generate_silence_def float_times_int_def float_of_int_def fl_round_48000
      int_of_float_def zeros_def)

text \<open>
  The count follows the rounded product: for the doubles nearest to 0.7 and 0.3 the exact
  products with 10 and 48000 lie just below 7 and 14400, the rounded ones are 7 and 14400.
\<close>

lemma generate_silence_rounded:
  "generate_silence (Fin (3152519739159347 / 4503599627370496)) 10 = Inr (replicate 7 (Fin 0))"
  "generate_silence (Fin (5404319552844595 / 18014398509481984)) 48000
     = Inr (replicate 14400 (Fin 0))"
  using fl_round_seven fl_round_14400
  by (simp_all add: generate_silence_def float_times_int_def float_of_int_def fl_round_10
      fl_round_48000 int_of_float_def zeros_def)

lemma generate_silence_raises:
  "generate_silence d (2 ^ 1024) = Inl IntToFloat"
  "generate_silence NaN 48000 = Inl FloatToInt"
  "generate_silence PInf 48000 = Inl FloatToInt"
proof -
  show "generate_silence d (2 ^ 1024) = Inl IntToFloat"
    by (simp only: generate_silence_def float_times_int_def float_of_int_too_large sum.case)
  show "generate_silence NaN 48000 = Inl FloatToInt"
    by (simp add: generate_silence_def float_times_int_def float_of_int_def fl_round_48000
        int_of_float_def)
  show "generate_silence PInf 48000 = Inl FloatToInt"
    by (simp add: generate_silence_def float_times_int_def float_of_int_def fl_round_48000
        int_of_float_def)
qed

text \<open>
  C9. \<open>synthesize\<close> returns the same buffer for every model object, audio prompt, text,
  note string and cfg scale: 144000 samples (3 seconds at 48000 Hz), all 0.0.
\<close>

theorem synthesize_silence:
  "synthesize self audio_prompt text notes cfg_scale = Inr (replicate 144000 (Fin 0))"
  using fl_round_144000
  by (simp add: synthesize_def float_times_int_def float_of_int_def fl_round_48000
      int_of_float_def zeros_def)

end
